theory Spec2Isabelle
  imports Main "HOL-Library.Word"
begin

section \<open>Command buffers of the simple DSI panel driver\<close>

text \<open>
  The definitions below embed \<^verbatim>\<open>drivers/gpu/drm/panel/panel-simple-dsi.c\<close>.
  A command buffer is a list of bytes; a pointer into the buffer is the offset of the
  byte it points at, so that a read through the pointer is a guarded list access and a
  read at an offset outside the buffer is a result of its own.
\<close>

type_synonym u8 = "8 word"
type_synonym u32 = "32 word"

text \<open>\<^verbatim>\<open>struct cmd_ctrl_hdr\<close>: data type, wait in ms, payload length.\<close>

record cmd_ctrl_hdr =
  dtype :: u8
  wait :: u8
  dlen :: u8

text \<open>\<^verbatim>\<open>struct cmd_desc\<close>; \<open>payload\<close> is the offset in the owning buffer.\<close>

record cmd_desc =
  dchdr :: cmd_ctrl_hdr
  payload :: nat

text \<open>\<^verbatim>\<open>struct panel_cmds\<close>.\<close>

record panel_cmds =
  buf :: "u8 list"
  blen :: int
  cmds :: "cmd_desc list"
  cmd_cnt :: nat

text \<open>
  The results of the two allocations of the parser, \<^verbatim>\<open>kmemdup\<close> and \<^verbatim>\<open>kcalloc\<close>,
  which belong to the kernel's allocator.
\<close>

record kmem =
  kmemdup_ok :: bool
  kcalloc_ok :: bool

text \<open>The two error numbers the driver returns itself (\<^verbatim>\<open>errno-base.h\<close>).\<close>

definition ENOMEM :: int where
  "ENOMEM = 12"

definition EINVAL :: int where
  "EINVAL = 22"

text \<open>
  Every return of \<^verbatim>\<open>panel_simple_parse_cmds\<close> other than 0. The two \<^verbatim>\<open>-EINVAL\<close>
  returns after the scan differ in the message they log, so they are told apart here.
\<close>

datatype parse_error =
    EINVAL_pcmds
  | ENOMEM_buf
  | EINVAL_len u8
  | EINVAL_trailer
  | ENOMEM_cmds

fun parse_errno :: "parse_error \<Rightarrow> int" where
  "parse_errno EINVAL_pcmds = - EINVAL"
| "parse_errno ENOMEM_buf = - ENOMEM"
| "parse_errno (EINVAL_len l) = - EINVAL"
| "parse_errno EINVAL_trailer = - EINVAL"
| "parse_errno ENOMEM_cmds = - ENOMEM"

datatype parse_result =
    Parsed panel_cmds
  | Failed parse_error
  | ReadPastEnd nat

text \<open>
  \<open>sizeof(struct cmd_ctrl_hdr)\<close> is 3 (the struct is packed). Reading \<^verbatim>\<open>dchdr->dlen\<close>
  with \<^verbatim>\<open>dchdr = bp\<close> reads the byte at offset \<open>bp + 2\<close>; copying \<^verbatim>\<open>*dchdr\<close> reads
  the three bytes from \<open>bp\<close>.
\<close>

definition read_dlen :: "u8 list \<Rightarrow> nat \<Rightarrow> u8 option" where
  "read_dlen b bp = (if bp + 2 < length b then Some (b ! (bp + 2)) else None)"

definition read_hdr :: "u8 list \<Rightarrow> nat \<Rightarrow> cmd_ctrl_hdr option" where
  "read_hdr b bp =
     (if bp + 2 < length b
      then Some \<lparr>dtype = b ! bp, wait = b ! (bp + 1), dlen = b ! (bp + 2)\<rparr>
      else None)"

text \<open>
  The scan loop (\<^verbatim>\<open>while (len > sizeof(*dchdr))\<close>). \<open>len\<close> is an \<^verbatim>\<open>unsigned int\<close>,
  so the two subtractions wrap around; \<open>cnt\<close> counts the records.
\<close>

datatype scan_result =
    ScanEnd u32 nat
  | ScanLenErr u8
  | ScanOOB nat

function scan_cmds :: "u8 list \<Rightarrow> nat \<Rightarrow> u32 \<Rightarrow> nat \<Rightarrow> scan_result" where
  "scan_cmds b bp len cnt =
     (if 3 < len then
        (case read_dlen b bp of
           None \<Rightarrow> ScanOOB (bp + 2)
         | Some l \<Rightarrow>
             if len < ucast l then ScanLenErr l
             else scan_cmds b (bp + 3 + unat l) (len - 3 - ucast l) (cnt + 1))
      else ScanEnd len cnt)"
  by pat_completeness auto
termination
  by (relation "measure (\<lambda>(b, bp, len, cnt). length b - bp)")
     (auto simp: read_dlen_def split: if_splits)

declare scan_cmds.simps [simp del]

text \<open>
  The second loop (\<^verbatim>\<open>for (i = 0; i < cnt; i++)\<close>) fills the descriptors. Its own
  \<open>len\<close> is written and never read, and is left out.
\<close>

fun fill_cmds :: "u8 list \<Rightarrow> nat \<Rightarrow> nat \<Rightarrow> nat + cmd_desc list" where
  "fill_cmds b bp 0 = Inr []"
| "fill_cmds b bp (Suc n) =
     (case read_hdr b bp of
        None \<Rightarrow> Inl bp
      | Some h \<Rightarrow>
          (case fill_cmds b (bp + 3 + unat (dlen h)) n of
             Inl i \<Rightarrow> Inl i
           | Inr cs \<Rightarrow> Inr (\<lparr>dchdr = h, payload = bp + 3\<rparr> # cs)))"

text \<open>
  \<^verbatim>\<open>panel_simple_parse_cmds(dev, data, blen, pcmds)\<close>, with \<open>blen\<close> the length of
  \<open>data\<close>. The error message of the trailer check prints \<^verbatim>\<open>buf[0]\<close>.
\<close>

definition panel_simple_parse_cmds ::
  "kmem \<Rightarrow> u8 list \<Rightarrow> panel_cmds option \<Rightarrow> parse_result" where
  "panel_simple_parse_cmds m data pcmds =
     (case pcmds of
        None \<Rightarrow> Failed EINVAL_pcmds
      | Some pc \<Rightarrow>
          if \<not> kmemdup_ok m then Failed ENOMEM_buf
          else
            (case scan_cmds data 0 (of_nat (length data)) 0 of
               ScanOOB i \<Rightarrow> ReadPastEnd i
             | ScanLenErr l \<Rightarrow> Failed (EINVAL_len l)
             | ScanEnd len cnt \<Rightarrow>
                 if len \<noteq> 0 then
                   (if data = [] then ReadPastEnd 0 else Failed EINVAL_trailer)
                 else if \<not> kcalloc_ok m then Failed ENOMEM_cmds
                 else
                   (case fill_cmds data 0 cnt of
                      Inl i \<Rightarrow> ReadPastEnd i
                    | Inr cs \<Rightarrow>
                        Parsed (pc\<lparr>cmds := cs, cmd_cnt := cnt, buf := data,
                                   blen := int (length data)\<rparr>))))"

text \<open>The bytes a parsed command's payload pointer and length denote.\<close>

definition payload_bytes :: "panel_cmds \<Rightarrow> cmd_desc \<Rightarrow> u8 list" where
  "payload_bytes pc c = take (unat (dlen (dchdr c))) (drop (payload c) (buf pc))"

subsection \<open>The wire format\<close>

text \<open>
  The wire format as the board description gives it: for each command the type tag,
  the wait in milliseconds, the payload length and the payload bytes. The driver has no
  serialiser; this one follows the format's description, to be compared with the parser.
\<close>

type_synonym command = "u8 \<times> u8 \<times> u8 list"

fun serialize_cmd :: "command \<Rightarrow> u8 list" where
  "serialize_cmd (t, w, p) = t # w # of_nat (length p) # p"

definition serialize_cmds :: "command list \<Rightarrow> u8 list" where
  "serialize_cmds cs = concat (map serialize_cmd cs)"

definition command_of :: "panel_cmds \<Rightarrow> cmd_desc \<Rightarrow> command" where
  "command_of pc c = (dtype (dchdr c), wait (dchdr c), payload_bytes pc c)"

subsection \<open>Concrete inputs\<close>

text \<open>Both allocations succeed; the zeroed struct \<^verbatim>\<open>panel_simple_get_cmds\<close> passes.\<close>

definition kmem_ok :: kmem where
  "kmem_ok = \<lparr>kmemdup_ok = True, kcalloc_ok = True\<rparr>"

definition pcmds_zeroed :: panel_cmds where
  "pcmds_zeroed = \<lparr>buf = [], blen = 0, cmds = [], cmd_cnt = 0\<rparr>"



section \<open>Transmission, power rail and lifecycle\<close>

subsection \<open>What the driver calls\<close>

text \<open>
  The driver acts on the panel through the regulator, GPIO and DSI services of the
  kernel, sleeps, and logs with \<^verbatim>\<open>dev_err\<close>. Each such call is an event; the events
  of a run are kept in the order in which they happen. A call whose result the driver
  reads carries the result.
\<close>

datatype dsi_write = Generic_write | Dcs_write_buffer

datatype message =
    Failed_to_write_dcs_cmd int
  | Failed_to_enable_supply int
  | Failed_to_send_on_cmds
  | Failed_to_send_off_cmds

datatype event =
    Msleep nat
  | Usleep_range nat nat
  | Regulator_enable int
  | Regulator_disable
  | Gpiod_direction_output string int
  | Dsi_write dsi_write "u8 list" int
  | Dev_err message

text \<open>The state outside the driver: the power rail and the events so far.\<close>

record hw =
  rail_on :: bool
  events :: "event list"

text \<open>
  The results of the calls that can fail are not fixed by the driver: a \<open>kernel\<close> gives
  the result of \<^verbatim>\<open>regulator_enable\<close> and of a DSI write from the events so far (and
  the write asked for), so that any pattern of failures is a \<open>kernel\<close>.
\<close>

record kernel =
  regulator_enable_ret :: "event list \<Rightarrow> int"
  dsi_write_ret :: "event list \<Rightarrow> dsi_write \<Rightarrow> u8 list \<Rightarrow> int"

text \<open>
  The seven data types the transmitter recognises are macros of
  \<^verbatim>\<open>video/mipi_display.h\<close>, which is not among the sources: they are a parameter.
\<close>

record mipi_display =
  MIPI_DSI_GENERIC_SHORT_WRITE_0_PARAM :: u8
  MIPI_DSI_GENERIC_SHORT_WRITE_1_PARAM :: u8
  MIPI_DSI_GENERIC_SHORT_WRITE_2_PARAM :: u8
  MIPI_DSI_GENERIC_LONG_WRITE :: u8
  MIPI_DSI_DCS_SHORT_WRITE :: u8
  MIPI_DSI_DCS_SHORT_WRITE_PARAM :: u8
  MIPI_DSI_DCS_LONG_WRITE :: u8

definition emit :: "event \<Rightarrow> hw \<Rightarrow> hw" where
  "emit e h = h\<lparr>events := events h @ [e]\<rparr>"

definition dev_err :: "message \<Rightarrow> hw \<Rightarrow> hw" where
  "dev_err msg h = emit (Dev_err msg) h"

definition gpiod_direction_output :: "string \<Rightarrow> int \<Rightarrow> hw \<Rightarrow> hw" where
  "gpiod_direction_output line v h = emit (Gpiod_direction_output line v) h"

text \<open>
  Modelled from the spec: the power-rail handle, which exposes enable, disable and
  is-enabled (\<^verbatim>\<open>regulator_enable\<close>, \<^verbatim>\<open>regulator_disable\<close> and
  \<^verbatim>\<open>regulator_is_enabled\<close> of the regulator core are not among the sources). The
  rail is on or off. Enabling it can fail with a negative code, which leaves the rail as
  it is; otherwise the rail is on. Disabling turns it off; the driver never reads the
  result of \<^verbatim>\<open>regulator_disable\<close>.
\<close>

definition regulator_enable :: "kernel \<Rightarrow> hw \<Rightarrow> int \<times> hw" where
  "regulator_enable k h =
     (let r = regulator_enable_ret k (events h)
      in (r, emit (Regulator_enable r) (if r < 0 then h else h\<lparr>rail_on := True\<rparr>)))"

definition regulator_disable :: "hw \<Rightarrow> hw" where
  "regulator_disable h = emit Regulator_disable (h\<lparr>rail_on := False\<rparr>)"

definition regulator_is_enabled :: "hw \<Rightarrow> int" where
  "regulator_is_enabled h = (if rail_on h then 1 else 0)"

text \<open>
  Modelled from the spec: the command channel, which exposes a generic write and a
  display-command-set write over byte payloads (\<^verbatim>\<open>mipi_dsi_generic_write\<close> and
  \<^verbatim>\<open>mipi_dsi_dcs_write_buffer\<close> are not among the sources). A write is an event with
  its payload and its result; a negative result is a failure.
\<close>

definition mipi_dsi_generic_write :: "kernel \<Rightarrow> u8 list \<Rightarrow> hw \<Rightarrow> int \<times> hw" where
  "mipi_dsi_generic_write k bytes h =
     (let r = dsi_write_ret k (events h) Generic_write bytes
      in (r, emit (Dsi_write Generic_write bytes r) h))"

definition mipi_dsi_dcs_write_buffer :: "kernel \<Rightarrow> u8 list \<Rightarrow> hw \<Rightarrow> int \<times> hw" where
  "mipi_dsi_dcs_write_buffer k bytes h =
     (let r = dsi_write_ret k (events h) Dcs_write_buffer bytes
      in (r, emit (Dsi_write Dcs_write_buffer bytes r) h))"

subsection \<open>Sleeping\<close>

text \<open>\<^verbatim>\<open>panel_simple_sleep\<close>: \<^verbatim>\<open>msleep\<close> above 20 ms, \<^verbatim>\<open>usleep_range\<close> otherwise.\<close>

definition sleep_event :: "nat \<Rightarrow> event" where
  "sleep_event msec =
     (if msec > 20 then Msleep msec else Usleep_range (msec * 1000) ((msec + 1) * 1000))"

definition panel_simple_sleep :: "nat \<Rightarrow> hw \<Rightarrow> hw" where
  "panel_simple_sleep msec h = emit (sleep_event msec) h"

subsection \<open>The transmitter\<close>

text \<open>
  After the \<^verbatim>\<open>switch\<close> of \<^verbatim>\<open>panel_simple_dsi_send_cmds\<close>: a negative \<open>err\<close> is
  logged, and a wait that is not zero is slept.
\<close>

definition after_write :: "cmd_desc \<Rightarrow> int \<times> hw \<Rightarrow> hw" where
  "after_write cmd r =
     (case r of (err, h) \<Rightarrow>
        let h1 = (if err < 0 then dev_err (Failed_to_write_dcs_cmd err) h else h)
        in if wait (dchdr cmd) \<noteq> 0 then panel_simple_sleep (unat (wait (dchdr cmd))) h1
           else h1)"

text \<open>
  The loop over the descriptors, with the \<^verbatim>\<open>switch\<close> on the data type: the four
  generic types, the three DCS types, and \<^verbatim>\<open>default: return -EINVAL\<close>.
\<close>

fun send_cmds_loop ::
  "mipi_display \<Rightarrow> kernel \<Rightarrow> panel_cmds \<Rightarrow> cmd_desc list \<Rightarrow> hw \<Rightarrow> int \<times> hw" where
  "send_cmds_loop t k pc [] h = (0, h)"
| "send_cmds_loop t k pc (cmd # rest) h =
     (if dtype (dchdr cmd) = MIPI_DSI_GENERIC_SHORT_WRITE_0_PARAM t \<or>
         dtype (dchdr cmd) = MIPI_DSI_GENERIC_SHORT_WRITE_1_PARAM t \<or>
         dtype (dchdr cmd) = MIPI_DSI_GENERIC_SHORT_WRITE_2_PARAM t \<or>
         dtype (dchdr cmd) = MIPI_DSI_GENERIC_LONG_WRITE t
      then send_cmds_loop t k pc rest
             (after_write cmd (mipi_dsi_generic_write k (payload_bytes pc cmd) h))
      else if dtype (dchdr cmd) = MIPI_DSI_DCS_SHORT_WRITE t \<or>
              dtype (dchdr cmd) = MIPI_DSI_DCS_SHORT_WRITE_PARAM t \<or>
              dtype (dchdr cmd) = MIPI_DSI_DCS_LONG_WRITE t
      then send_cmds_loop t k pc rest
             (after_write cmd (mipi_dsi_dcs_write_buffer k (payload_bytes pc cmd) h))
      else (- EINVAL, h))"

text \<open>
  \<^verbatim>\<open>panel_simple_dsi_send_cmds(panel, cmds)\<close>; of \<open>panel\<close> it uses the DSI device and
  the device to log to. The loop runs over the first \<open>cmd_cnt\<close> descriptors.
\<close>

definition panel_simple_dsi_send_cmds ::
  "mipi_display \<Rightarrow> kernel \<Rightarrow> panel_cmds option \<Rightarrow> hw \<Rightarrow> int \<times> hw" where
  "panel_simple_dsi_send_cmds t k cmds_ptr h =
     (case cmds_ptr of
        None \<Rightarrow> (- EINVAL, h)
      | Some pc \<Rightarrow> send_cmds_loop t k pc (take (cmd_cnt pc) (cmds pc)) h)"

subsection \<open>The panel\<close>

text \<open>
  The \<open>delay\<close> struct of \<^verbatim>\<open>struct panel_desc\<close> (milliseconds), and of
  \<^verbatim>\<open>struct panel_simple\<close> the fields the lifecycle reads or writes. A pointer that is
  only tested is a \<open>bool\<close> (\<open>dsi\<close>) or an \<open>option\<close>; a GPIO line is known by its name.
\<close>

record panel_delay =
  reset :: nat
  init :: nat
  prepare :: nat
  enable :: nat
  disable :: nat
  unprepare :: nat

record panel_desc =
  delay :: panel_delay

record panel_simple =
  dsi :: bool
  prepared :: bool
  enabled :: bool
  power_invert :: bool
  desc :: "panel_desc option"
  enable_gpio :: "string option"
  reset_gpio :: "string option"
  on_cmds :: "panel_cmds option"
  off_cmds :: "panel_cmds option"
  reset_level :: int

text \<open>\<^verbatim>\<open>if (p->desc && p->desc->delay.f) panel_simple_sleep(p->desc->delay.f)\<close>.\<close>

definition sleep_if_delay :: "(panel_delay \<Rightarrow> nat) \<Rightarrow> panel_simple \<Rightarrow> hw \<Rightarrow> hw" where
  "sleep_if_delay f p h =
     (case desc p of
        None \<Rightarrow> h
      | Some d \<Rightarrow> if f (delay d) \<noteq> 0 then panel_simple_sleep (f (delay d)) h else h)"

text \<open>\<^verbatim>\<open>if (gpio) gpiod_direction_output(gpio, v)\<close>, and C's \<^verbatim>\<open>!\<close> on an \<^verbatim>\<open>int\<close>.\<close>

definition gpio_out_if :: "string option \<Rightarrow> int \<Rightarrow> hw \<Rightarrow> hw" where
  "gpio_out_if gpio v h =
     (case gpio of None \<Rightarrow> h | Some line \<Rightarrow> gpiod_direction_output line v h)"

definition lnot :: "int \<Rightarrow> int" where
  "lnot v = (if v = 0 then 1 else 0)"

subsection \<open>The power rail\<close>

definition panel_simple_regulator_enable :: "kernel \<Rightarrow> panel_simple \<Rightarrow> hw \<Rightarrow> int \<times> hw" where
  "panel_simple_regulator_enable k p h =
     (if power_invert p then
        (if regulator_is_enabled h > 0 then (0, regulator_disable h) else (0, h))
      else
        (case regulator_enable k h of (err, h1) \<Rightarrow>
           if err < 0 then (err, dev_err (Failed_to_enable_supply err) h1) else (err, h1)))"

definition panel_simple_regulator_disable :: "kernel \<Rightarrow> panel_simple \<Rightarrow> hw \<Rightarrow> int \<times> hw" where
  "panel_simple_regulator_disable k p h =
     (if power_invert p then
        (if regulator_is_enabled h = 0 then
           (case regulator_enable k h of (err, h1) \<Rightarrow>
              if err < 0 then (err, dev_err (Failed_to_enable_supply err) h1) else (err, h1))
         else (0, h))
      else (0, regulator_disable h))"

subsection \<open>The four lifecycle calls\<close>

text \<open>Each returns its return value, the panel and the state outside.\<close>

definition panel_simple_disable :: "panel_simple \<Rightarrow> hw \<Rightarrow> int \<times> panel_simple \<times> hw" where
  "panel_simple_disable p h =
     (if \<not> enabled p then (0, p, h)
      else (0, p\<lparr>enabled := False\<rparr>, sleep_if_delay disable p h))"

text \<open>
  The block \<^verbatim>\<open>if (p->off_cmds) { ... }\<close> of \<^verbatim>\<open>panel_simple_unprepare\<close>; the call
  ignores the result of the rail step and returns 0.
\<close>

definition send_off_cmds :: "mipi_display \<Rightarrow> kernel \<Rightarrow> panel_simple \<Rightarrow> hw \<Rightarrow> hw" where
  "send_off_cmds t k p h =
     (case off_cmds p of
        None \<Rightarrow> h
      | Some c \<Rightarrow>
          (case (if dsi p then panel_simple_dsi_send_cmds t k (Some c) h else (0, h)) of
             (err, h1) \<Rightarrow> if err \<noteq> 0 then dev_err Failed_to_send_off_cmds h1 else h1))"

definition panel_simple_unprepare ::
  "mipi_display \<Rightarrow> kernel \<Rightarrow> panel_simple \<Rightarrow> hw \<Rightarrow> int \<times> panel_simple \<times> hw" where
  "panel_simple_unprepare t k p h =
     (if \<not> prepared p then (0, p, h)
      else
        let h1 = send_off_cmds t k p h;
            h2 = gpio_out_if (reset_gpio p) (lnot (reset_level p)) h1;
            h3 = gpio_out_if (enable_gpio p) 0 h2;
            h4 = snd (panel_simple_regulator_disable k p h3);
            h5 = sleep_if_delay unprepare p h4
        in (0, p\<lparr>prepared := False\<rparr>, h5))"

definition panel_simple_prepare ::
  "kernel \<Rightarrow> panel_simple \<Rightarrow> hw \<Rightarrow> int \<times> panel_simple \<times> hw" where
  "panel_simple_prepare k p h =
     (if prepared p then (0, p, h)
      else
        (case panel_simple_regulator_enable k p h of (err, h1) \<Rightarrow>
           if err < 0 then (err, p, dev_err (Failed_to_enable_supply err) h1)
           else
             let h2 = gpio_out_if (enable_gpio p) 1 h1;
                 h3 = sleep_if_delay prepare p h2;
                 h4 = gpio_out_if (reset_gpio p) (lnot (reset_level p)) h3;
                 h5 = sleep_if_delay reset p h4;
                 h6 = gpio_out_if (reset_gpio p) (reset_level p) h5;
                 h7 = sleep_if_delay init p h6
             in (0, p\<lparr>prepared := True\<rparr>, h7)))"

text \<open>
  The block \<^verbatim>\<open>if (p->on_cmds) { ... }\<close> of \<^verbatim>\<open>panel_simple_enable\<close>, with the \<open>err\<close> the
  call returns in the end.
\<close>

definition send_on_cmds :: "mipi_display \<Rightarrow> kernel \<Rightarrow> panel_simple \<Rightarrow> hw \<Rightarrow> int \<times> hw" where
  "send_on_cmds t k p h =
     (case on_cmds p of
        None \<Rightarrow> (0, h)
      | Some c \<Rightarrow>
          (case (if dsi p then panel_simple_dsi_send_cmds t k (Some c) h else (0, h)) of
             (err, h1) \<Rightarrow> (err, if err \<noteq> 0 then dev_err Failed_to_send_on_cmds h1 else h1)))"

definition panel_simple_enable ::
  "mipi_display \<Rightarrow> kernel \<Rightarrow> panel_simple \<Rightarrow> hw \<Rightarrow> int \<times> panel_simple \<times> hw" where
  "panel_simple_enable t k p h =
     (if enabled p then (0, p, h)
      else
        (case send_on_cmds t k p (sleep_if_delay enable p h) of (err, h2) \<Rightarrow>
           (err, p\<lparr>enabled := True\<rparr>, h2)))"

subsection \<open>Sequences of calls\<close>

text \<open>
  The four entries of \<^verbatim>\<open>panel_simple_funcs\<close> that change the state, and a run of
  calls from a state, each call on the state the one before left.
\<close>

datatype panel_call = Prepare | Enable | Disable | Unprepare

fun call :: "mipi_display \<Rightarrow> kernel \<Rightarrow> panel_call \<Rightarrow> panel_simple \<times> hw \<Rightarrow> panel_simple \<times> hw" where
  "call t k Prepare (p, h) = snd (panel_simple_prepare k p h)"
| "call t k Enable (p, h) = snd (panel_simple_enable t k p h)"
| "call t k Disable (p, h) = snd (panel_simple_disable p h)"
| "call t k Unprepare (p, h) = snd (panel_simple_unprepare t k p h)"

fun run :: "mipi_display \<Rightarrow> kernel \<Rightarrow> panel_call list \<Rightarrow> panel_simple \<times> hw \<Rightarrow> panel_simple \<times> hw" where
  "run t k [] s = s"
| "run t k (c # cs) s = run t k cs (call t k c s)"

text \<open>
  The order in which the display framework makes the calls: \<open>enable\<close> on a prepared
  panel, \<open>unprepare\<close> on a panel that is not enabled. \<open>in_order\<close> checks a run of
  calls against it, each call on the state it is made in.
\<close>

fun allowed :: "panel_call \<Rightarrow> panel_simple \<Rightarrow> bool" where
  "allowed Enable p = prepared p"
| "allowed Unprepare p = (\<not> enabled p)"
| "allowed Prepare p = True"
| "allowed Disable p = True"

fun in_order :: "mipi_display \<Rightarrow> kernel \<Rightarrow> panel_call list \<Rightarrow> panel_simple \<times> hw \<Rightarrow> bool" where
  "in_order t k [] s = True"
| "in_order t k (c # cs) s = (allowed c (fst s) \<and> in_order t k cs (call t k c s))"

subsection \<open>Reading the events\<close>

text \<open>The writes on the channel, the sleeps, and the failures that were logged.\<close>

fun writes_of :: "event list \<Rightarrow> (dsi_write \<times> u8 list) list" where
  "writes_of [] = []"
| "writes_of (Dsi_write w bytes r # es) = (w, bytes) # writes_of es"
| "writes_of (e # es) = writes_of es"

fun sleeps_of :: "event list \<Rightarrow> event list" where
  "sleeps_of [] = []"
| "sleeps_of (Msleep n # es) = Msleep n # sleeps_of es"
| "sleeps_of (Usleep_range a b # es) = Usleep_range a b # sleeps_of es"
| "sleeps_of (e # es) = sleeps_of es"

fun write_errors :: "event list \<Rightarrow> int list" where
  "write_errors [] = []"
| "write_errors (Dsi_write w bytes r # es) =
     (if r < 0 then r # write_errors es else write_errors es)"
| "write_errors (e # es) = write_errors es"

fun logged_write_errors :: "event list \<Rightarrow> int list" where
  "logged_write_errors [] = []"
| "logged_write_errors (Dev_err (Failed_to_write_dcs_cmd r) # es) = r # logged_write_errors es"
| "logged_write_errors (e # es) = logged_write_errors es"

fun line_events :: "event list \<Rightarrow> event list" where
  "line_events [] = []"
| "line_events (Gpiod_direction_output line v # es) =
     Gpiod_direction_output line v # line_events es"
| "line_events (e # es) = line_events es"

text \<open>The two write classes of the transmitter, and the write a recognised command is.\<close>

definition generic_type :: "mipi_display \<Rightarrow> u8 \<Rightarrow> bool" where
  "generic_type t ty =
     (ty = MIPI_DSI_GENERIC_SHORT_WRITE_0_PARAM t \<or>
      ty = MIPI_DSI_GENERIC_SHORT_WRITE_1_PARAM t \<or>
      ty = MIPI_DSI_GENERIC_SHORT_WRITE_2_PARAM t \<or>
      ty = MIPI_DSI_GENERIC_LONG_WRITE t)"

definition dcs_type :: "mipi_display \<Rightarrow> u8 \<Rightarrow> bool" where
  "dcs_type t ty =
     (ty = MIPI_DSI_DCS_SHORT_WRITE t \<or>
      ty = MIPI_DSI_DCS_SHORT_WRITE_PARAM t \<or>
      ty = MIPI_DSI_DCS_LONG_WRITE t)"

definition recognised :: "mipi_display \<Rightarrow> cmd_desc \<Rightarrow> bool" where
  "recognised t c = (generic_type t (dtype (dchdr c)) \<or> dcs_type t (dtype (dchdr c)))"

definition write_of :: "mipi_display \<Rightarrow> panel_cmds \<Rightarrow> cmd_desc \<Rightarrow> dsi_write \<times> u8 list" where
  "write_of t pc c =
     (if generic_type t (dtype (dchdr c)) then Generic_write else Dcs_write_buffer,
      payload_bytes pc c)"

text \<open>
  What one pass through the loop body does to the state outside for a recognised
  command: the write of its class, then the log and the wait.
\<close>

definition send_one :: "mipi_display \<Rightarrow> kernel \<Rightarrow> panel_cmds \<Rightarrow> cmd_desc \<Rightarrow> hw \<Rightarrow> hw" where
  "send_one t k pc c h =
     after_write c
       (if generic_type t (dtype (dchdr c))
        then mipi_dsi_generic_write k (payload_bytes pc c) h
        else mipi_dsi_dcs_write_buffer k (payload_bytes pc c) h)"

subsection \<open>Concrete inputs of the lifecycle\<close>

text \<open>
  The values \<^verbatim>\<open>video/mipi_display.h\<close> gives the seven macros; used for concrete
  inputs only.
\<close>

definition mipi_display_h :: mipi_display where
  "mipi_display_h =
     \<lparr>MIPI_DSI_GENERIC_SHORT_WRITE_0_PARAM = 0x03,
      MIPI_DSI_GENERIC_SHORT_WRITE_1_PARAM = 0x13,
      MIPI_DSI_GENERIC_SHORT_WRITE_2_PARAM = 0x23,
      MIPI_DSI_GENERIC_LONG_WRITE = 0x29,
      MIPI_DSI_DCS_SHORT_WRITE = 0x05,
      MIPI_DSI_DCS_SHORT_WRITE_PARAM = 0x15,
      MIPI_DSI_DCS_LONG_WRITE = 0x39\<rparr>"

text \<open>A kernel in which nothing fails, and one in which everything that can fail does.\<close>

definition kernel_ok :: kernel where
  "kernel_ok = \<lparr>regulator_enable_ret = (\<lambda>es. 0), dsi_write_ret = (\<lambda>es w bytes. 0)\<rparr>"

definition kernel_failing :: kernel where
  "kernel_failing = \<lparr>regulator_enable_ret = (\<lambda>es. - 5), dsi_write_ret = (\<lambda>es w bytes. - 5)\<rparr>"

definition hw_off :: hw where
  "hw_off = \<lparr>rail_on = False, events = []\<rparr>"

definition hw_on :: hw where
  "hw_on = \<lparr>rail_on = True, events = []\<rparr>"

text \<open>
  Two command sequences: a DCS write (wait 120 ms) followed by a command of type
  \<open>0xFF\<close>, and two DCS writes, the first with a wait of 5 ms.
\<close>

definition cmds_unknown :: panel_cmds where
  "cmds_unknown =
     \<lparr>buf = [0x05, 0x78, 0x01, 0x11, 0xFF, 0x00, 0x01, 0x29], blen = 8,
      cmds = [\<lparr>dchdr = \<lparr>dtype = 0x05, wait = 0x78, dlen = 1\<rparr>, payload = 3\<rparr>,
              \<lparr>dchdr = \<lparr>dtype = 0xFF, wait = 0x00, dlen = 1\<rparr>, payload = 7\<rparr>],
      cmd_cnt = 2\<rparr>"

definition cmds_known :: panel_cmds where
  "cmds_known =
     \<lparr>buf = [0x05, 0x05, 0x01, 0x11, 0x05, 0x00, 0x01, 0x29], blen = 8,
      cmds = [\<lparr>dchdr = \<lparr>dtype = 0x05, wait = 0x05, dlen = 1\<rparr>, payload = 3\<rparr>,
              \<lparr>dchdr = \<lparr>dtype = 0x05, wait = 0x00, dlen = 1\<rparr>, payload = 7\<rparr>],
      cmd_cnt = 2\<rparr>"

text \<open>
  The panel as \<^verbatim>\<open>panel_simple_probe\<close> leaves it (\<open>enabled\<close> and \<open>prepared\<close> false), with
  both lines, no delays and no command sequences; variants are written as updates.
\<close>

definition panel_probed :: panel_simple where
  "panel_probed =
     \<lparr>dsi = True, prepared = False, enabled = False, power_invert = False,
      desc = Some \<lparr>delay = \<lparr>reset = 0, init = 0, prepare = 0, enable = 0, disable = 0,
        unprepare = 0\<rparr>\<rparr>,
      enable_gpio = Some ''enable'', reset_gpio = Some ''reset'',
      on_cmds = None, off_cmds = None, reset_level = 0\<rparr>"

section \<open>Properties of the parser\<close>

subsection \<open>Arithmetic of the remaining length\<close>

lemma unat_ucast_dlen: "unat (ucast (l::u8) :: u32) = unat l"
proof -
  have "unat l < 2 ^ 8" using unsigned_less [of l, where ?'a = nat] by simp
  then have "unat l < 2 ^ 32" by simp
  then show ?thesis by (simp add: unsigned_ucast_eq take_bit_nat_eq_self)
qed

lemma ucast_dlen_less: "((len::u32) < ucast (l::u8)) = (unat len < unat l)"
  by (simp add: word_less_nat_alt unat_ucast_dlen)

lemma three_less: "((3::u32) < len) = (3 < unat len)"
  by (simp add: word_less_nat_alt)

lemma len_step_fits:
  fixes len :: u32 and l :: u8
  assumes "3 + unat l \<le> unat len"
  shows "unat (len - 3 - ucast l) = unat len - 3 - unat l"
proof -
  have a: "(3::u32) \<le> len" using assms by (simp add: word_le_nat_alt)
  have b: "unat (len - 3) = unat len - 3" using a by (simp add: unat_sub)
  have c: "(ucast l :: u32) \<le> len - 3"
    using assms b by (simp add: word_le_nat_alt unat_ucast_dlen)
  show ?thesis using c b by (simp add: unat_sub unat_ucast_dlen)
qed

text \<open>
  A record that passes the check \<^verbatim>\<open>dchdr->dlen > len\<close> and still does not fit
  behind its header makes \<open>len\<close> wrap around to a value close to \<open>2 ^ 32\<close>.
\<close>

lemma len_step_wraps:
  fixes len :: u32 and l :: u8
  assumes "3 < unat len" and "unat l \<le> unat len" and "unat len < 3 + unat l"
  shows "3 < unat (len - 3 - ucast l)"
proof -
  have a: "(3::u32) \<le> len" using assms by (simp add: word_le_nat_alt)
  have b: "unat (len - 3) = unat len - 3" using a by (simp add: unat_sub)
  have c: "len - 3 < (ucast l :: u32)"
    using assms b by (simp add: word_less_nat_alt unat_ucast_dlen)
  have l8: "unat l < 256" using unsigned_less [of l, where ?'a = nat] by simp
  have "unat (len - 3 - ucast l) = unat (len - 3) + 2 ^ 32 - unat (ucast l :: u32)"
    using c by (simp add: unat_sub_if' word_less_nat_alt)
  then show ?thesis using l8 by (simp add: unat_ucast_dlen)
qed

lemma unat_of_nat_len:
  "length (data :: u8 list) < 2 ^ 31 \<Longrightarrow> unat (of_nat (length data) :: u32) = length data"
  by (simp add: unat_of_nat take_bit_nat_eq_self)

lemma unat_of_nat_u8: "n \<le> 255 \<Longrightarrow> unat (of_nat n :: u8) = n"
  by (simp add: unat_of_nat take_bit_nat_eq_self)

subsection \<open>One iteration of the scan\<close>

lemma scan_cmds_stop: "\<not> 3 < unat len \<Longrightarrow> scan_cmds b bp len cnt = ScanEnd len cnt"
  by (subst scan_cmds.simps) (simp add: three_less)

lemma scan_cmds_oob:
  "3 < unat len \<Longrightarrow> length b \<le> bp + 2 \<Longrightarrow> scan_cmds b bp len cnt = ScanOOB (bp + 2)"
  by (subst scan_cmds.simps) (simp add: three_less read_dlen_def)

lemma scan_cmds_lenerr:
  "3 < unat len \<Longrightarrow> bp + 2 < length b \<Longrightarrow> unat len < unat (b ! (bp + 2)) \<Longrightarrow>
   scan_cmds b bp len cnt = ScanLenErr (b ! (bp + 2))"
  by (subst scan_cmds.simps) (simp add: three_less read_dlen_def ucast_dlen_less)

lemma scan_cmds_step:
  "3 < unat len \<Longrightarrow> bp + 2 < length b \<Longrightarrow> unat (b ! (bp + 2)) \<le> unat len \<Longrightarrow>
   scan_cmds b bp len cnt =
   scan_cmds b (bp + 3 + unat (b ! (bp + 2))) (len - 3 - ucast (b ! (bp + 2))) (cnt + 1)"
  by (subst scan_cmds.simps) (simp add: three_less read_dlen_def ucast_dlen_less)

subsection \<open>A scan that ends with nothing left\<close>

text \<open>
  While \<open>len\<close> is the number of bytes from \<open>bp\<close> to the end of the buffer, a scan that
  ends with \<open>len = 0\<close> has never wrapped around: a wrap-around is followed by a read
  outside the buffer. The second loop then finds its \<open>n - cnt\<close> headers inside the
  buffer, and the records cover the remaining bytes exactly.
\<close>

lemma scan_cmds_sound:
  "unat len + bp = length b \<Longrightarrow> scan_cmds b bp len cnt = ScanEnd 0 n \<Longrightarrow>
   cnt \<le> n \<and>
   (\<exists>cs. fill_cmds b bp (n - cnt) = Inr cs \<and>
     (\<Sum>c\<leftarrow>cs. 3 + unat (dlen (dchdr c))) = unat len \<and>
     (\<forall>c\<in>set cs. payload c + unat (dlen (dchdr c)) \<le> length b))"
proof (induction b bp len cnt rule: scan_cmds.induct)
  case (1 b bp len cnt)
  show ?case
  proof (cases "3 < unat len")
    case False
    with "1.prems" have "len = 0" "n = cnt" by (simp_all add: scan_cmds_stop)
    then show ?thesis by simp
  next
    case big: True
    then have inb: "bp + 2 < length b" using "1.prems"(1) by arith
    define l where "l = b ! (bp + 2)"
    have rd: "read_dlen b bp = Some l" using inb by (simp add: read_dlen_def l_def)
    have nle: "\<not> unat len < unat l"
      using "1.prems"(2) scan_cmds_lenerr [OF big inb, of cnt] by (auto simp: l_def)
    then have le: "unat l \<le> unat len" by simp
    have step: "scan_cmds b bp len cnt =
        scan_cmds b (bp + 3 + unat l) (len - 3 - ucast l) (cnt + 1)"
      using scan_cmds_step [OF big inb] le by (simp add: l_def)
    have fits: "3 + unat l \<le> unat len"
    proof (rule ccontr)
      assume "\<not> 3 + unat l \<le> unat len"
      then have w: "unat len < 3 + unat l" by simp
      have "3 < unat (len - 3 - ucast l)" by (rule len_step_wraps [OF big le w])
      moreover have "length b \<le> (bp + 3 + unat l) + 2" using w "1.prems"(1) by arith
      ultimately have "scan_cmds b (bp + 3 + unat l) (len - 3 - ucast l) (cnt + 1)
          = ScanOOB (bp + 3 + unat l + 2)" by (rule scan_cmds_oob)
      with step "1.prems"(2) show False by simp
    qed
    have inv': "unat (len - 3 - ucast l) + (bp + 3 + unat l) = length b"
      using len_step_fits [OF fits] fits "1.prems"(1) by arith
    have res': "scan_cmds b (bp + 3 + unat l) (len - 3 - ucast l) (cnt + 1) = ScanEnd 0 n"
      using step "1.prems"(2) by simp
    have "3 < len" using big by (simp add: three_less)
    moreover have "\<not> len < ucast l" using nle by (simp add: ucast_dlen_less)
    ultimately have IH: "cnt + 1 \<le> n \<and>
      (\<exists>cs. fill_cmds b (bp + 3 + unat l) (n - (cnt + 1)) = Inr cs \<and>
        (\<Sum>c\<leftarrow>cs. 3 + unat (dlen (dchdr c))) = unat (len - 3 - ucast l) \<and>
        (\<forall>c\<in>set cs. payload c + unat (dlen (dchdr c)) \<le> length b))"
      using "1.IH" [OF _ rd _ inv' res'] by simp
    then obtain cs where cs: "fill_cmds b (bp + 3 + unat l) (n - (cnt + 1)) = Inr cs"
        "(\<Sum>c\<leftarrow>cs. 3 + unat (dlen (dchdr c))) = unat (len - 3 - ucast l)"
        "\<forall>c\<in>set cs. payload c + unat (dlen (dchdr c)) \<le> length b"
      and cn: "cnt + 1 \<le> n" by blast
    have suc: "n - cnt = Suc (n - (cnt + 1))" using cn by arith
    define h where "h = \<lparr>dtype = b ! bp, wait = b ! (bp + 1), dlen = l\<rparr>"
    have rh: "read_hdr b bp = Some h" using inb by (simp add: read_hdr_def h_def l_def)
    have dh: "dlen h = l" by (simp add: h_def)
    define d where "d = \<lparr>dchdr = h, payload = bp + 3\<rparr>"
    have fill: "fill_cmds b bp (n - cnt) = Inr (d # cs)"
      using cs(1) rh by (simp add: suc dh d_def)
    have sum: "(\<Sum>c\<leftarrow>d # cs. 3 + unat (dlen (dchdr c))) = unat len"
      using cs(2) len_step_fits [OF fits] fits by (simp add: dh d_def)
    have bnd: "\<forall>c\<in>set (d # cs). payload c + unat (dlen (dchdr c)) \<le> length b"
      using cs(3) fits "1.prems"(1) by (simp add: dh d_def)
    show ?thesis using cn fill sum bnd by (intro conjI exI [of _ "d # cs"]) simp_all
  qed
qed

subsection \<open>Parsing a serialised command list\<close>

lemma serialize_cmds_Nil: "serialize_cmds [] = []"
  by (simp add: serialize_cmds_def)

lemma serialize_cmds_Cons:
  "serialize_cmds ((t, w, p) # cs) = t # w # of_nat (length p) # p @ serialize_cmds cs"
  by (simp add: serialize_cmds_def)

lemma serialize_cmds_ge3: "cs \<noteq> [] \<Longrightarrow> 3 \<le> length (serialize_cmds cs)"
  by (cases cs) (auto simp: serialize_cmds_def)

lemma fill_cmds_serialize:
  "\<forall>c\<in>set cs. length (snd (snd c)) \<le> 255 \<Longrightarrow>
   \<exists>ds. fill_cmds (pre @ serialize_cmds cs @ post) (length pre) (length cs) = Inr ds \<and>
     map (\<lambda>d. (dtype (dchdr d), wait (dchdr d),
        take (unat (dlen (dchdr d))) (drop (payload d) (pre @ serialize_cmds cs @ post)))) ds = cs"
proof (induction cs arbitrary: pre)
  case Nil
  then show ?case by simp
next
  case (Cons c cs)
  obtain t w p where c: "c = (t, w, p)" by (cases c)
  have lp: "length p \<le> 255" using Cons.prems by (simp add: c)
  define l :: u8 where "l = of_nat (length p)"
  have ul: "unat l = length p" using lp by (simp add: l_def unat_of_nat_u8)
  define b where "b = pre @ serialize_cmds (c # cs) @ post"
  define pre' where "pre' = pre @ t # w # l # p"
  have b': "b = pre' @ serialize_cmds cs @ post"
    by (simp add: b_def pre'_def c serialize_cmds_Cons l_def)
  have bh: "b = pre @ t # w # l # (p @ serialize_cmds cs @ post)"
    by (simp add: b_def c serialize_cmds_Cons l_def)
  have rh: "read_hdr b (length pre) = Some \<lparr>dtype = t, wait = w, dlen = l\<rparr>"
    by (simp add: read_hdr_def bh nth_append)
  have lp': "length pre' = length pre + 3 + unat l" by (simp add: pre'_def ul)
  from Cons.IH [of pre'] Cons.prems obtain ds where
    ds: "fill_cmds b (length pre') (length cs) = Inr ds"
        "map (\<lambda>d. (dtype (dchdr d), wait (dchdr d),
            take (unat (dlen (dchdr d))) (drop (payload d) b))) ds = cs"
    by (auto simp: b')
  have pl: "take (unat l) (drop (length pre + 3) b) = p"
    by (simp add: bh ul)
  define d where "d = \<lparr>dchdr = \<lparr>dtype = t, wait = w, dlen = l\<rparr>, payload = length pre + 3\<rparr>"
  have f1: "fill_cmds b (length pre) (length (c # cs)) = Inr (d # ds)"
    using rh ds(1) by (simp add: lp' d_def)
  have f2: "map (\<lambda>d. (dtype (dchdr d), wait (dchdr d),
       take (unat (dlen (dchdr d))) (drop (payload d) b))) (d # ds) = c # cs"
    using ds(2) pl by (simp add: c d_def)
  show ?case unfolding b_def [symmetric]
    by (rule exI [of _ "d # ds"]) (rule conjI [OF f1 f2])
qed

lemma scan_cmds_serialize:
  "\<forall>c\<in>set cs. length (snd (snd c)) \<le> 255 \<Longrightarrow>
   cs \<noteq> [] \<longrightarrow> snd (snd (last cs)) \<noteq> [] \<Longrightarrow>
   unat len = length (serialize_cmds cs) \<Longrightarrow>
   scan_cmds (pre @ serialize_cmds cs) (length pre) len cnt = ScanEnd 0 (cnt + length cs)"
proof (induction cs arbitrary: pre len cnt)
  case Nil
  then have "len = 0" by (simp add: serialize_cmds_Nil unat_eq_0)
  then show ?case by (simp add: scan_cmds_stop)
next
  case (Cons c cs)
  obtain t w p where c: "c = (t, w, p)" by (cases c)
  have lp: "length p \<le> 255" using Cons.prems(1) by (simp add: c)
  define l :: u8 where "l = of_nat (length p)"
  have ul: "unat l = length p" using lp by (simp add: l_def unat_of_nat_u8)
  define b where "b = pre @ serialize_cmds (c # cs)"
  define pre' where "pre' = pre @ t # w # l # p"
  have b': "b = pre' @ serialize_cmds cs"
    by (simp add: b_def pre'_def c serialize_cmds_Cons l_def)
  have bh: "b = pre @ t # w # l # (p @ serialize_cmds cs)"
    by (simp add: b_def c serialize_cmds_Cons l_def)
  have ulen: "unat len = 3 + length p + length (serialize_cmds cs)"
    using Cons.prems(3) by (simp add: c serialize_cmds_Cons)
  have more: "0 < length p + length (serialize_cmds cs)"
  proof (cases "cs = []")
    case True
    then show ?thesis using Cons.prems(2) by (simp add: c)
  next
    case False
    then have "3 \<le> length (serialize_cmds cs)" by (rule serialize_cmds_ge3)
    then show ?thesis by arith
  qed
  have big: "3 < unat len" using ulen more by simp
  have inb: "length pre + 2 < length b" by (simp add: bh)
  have nth: "b ! (length pre + 2) = l" by (simp add: bh nth_append)
  have le: "unat (b ! (length pre + 2)) \<le> unat len" unfolding nth ul ulen by simp
  have fits: "3 + unat l \<le> unat len" by (simp add: ul ulen)
  have len': "unat (len - 3 - ucast l) = length (serialize_cmds cs)"
    using len_step_fits [OF fits] by (simp add: ul ulen)
  have lp': "length pre' = length pre + 3 + unat l" by (simp add: pre'_def ul)
  have last: "cs \<noteq> [] \<longrightarrow> snd (snd (last cs)) \<noteq> []"
    using Cons.prems(2) by auto
  have "scan_cmds b (length pre) len cnt =
      scan_cmds b (length pre + 3 + unat l) (len - 3 - ucast l) (cnt + 1)"
    using scan_cmds_step [OF big inb le] unfolding nth .
  also have "\<dots> = scan_cmds (pre' @ serialize_cmds cs) (length pre') (len - 3 - ucast l) (cnt + 1)"
    by (simp add: b' lp')
  also have "\<dots> = ScanEnd 0 (cnt + 1 + length cs)"
    using Cons.IH [OF _ last len'] Cons.prems(1) by simp
  finally show ?case by (simp add: b_def)
qed

subsection \<open>A payload that ends behind the buffer\<close>

text \<open>
  The first record of a buffer passes the length check when its declared payload is no
  longer than the whole buffer. When the payload is still longer than what follows the
  header, the scan goes on behind the end of the buffer.
\<close>

lemma parse_cmds_first_record_overruns:
  assumes "length data < 2 ^ 31" and "3 < length data"
    and "unat (data ! 2) \<le> length data" and "length data < 3 + unat (data ! 2)"
    and "kmemdup_ok m"
  shows "panel_simple_parse_cmds m data (Some pc) = ReadPastEnd (3 + unat (data ! 2) + 2)"
proof -
  let ?len = "of_nat (length data) :: u32"
  have ul: "unat ?len = length data" using assms(1) by (rule unat_of_nat_len)
  have big: "3 < unat ?len" unfolding ul by (rule assms(2))
  have inb: "0 + 2 < length data" unfolding add_0 using assms(2) by arith
  have le: "unat (data ! (0 + 2)) \<le> unat ?len" unfolding ul add_0 by (rule assms(3))
  have w: "unat ?len < 3 + unat (data ! 2)" unfolding ul by (rule assms(4))
  have le2: "unat (data ! 2) \<le> unat ?len" unfolding ul by (rule assms(3))
  have past: "length data \<le> (3 + unat (data ! 2)) + 2" using assms(4) by arith
  have "scan_cmds data 0 ?len 0 =
      scan_cmds data (0 + 3 + unat (data ! (0 + 2))) (?len - 3 - ucast (data ! (0 + 2))) (0 + 1)"
    by (rule scan_cmds_step [OF big inb le])
  also have "\<dots> = scan_cmds data (3 + unat (data ! 2)) (?len - 3 - ucast (data ! 2)) (0 + 1)"
    unfolding add_0 ..
  also have "\<dots> = ScanOOB (3 + unat (data ! 2) + 2)"
    by (rule scan_cmds_oob [OF len_step_wraps [OF big le2 w] past])
  finally show ?thesis using assms(5) by (simp add: panel_simple_parse_cmds_def)
qed

section \<open>The claims about the parser\<close>

text \<open>
  C1. A buffer in which a record declares more payload than the buffer holds behind the
  record's header is not always rejected. The scan compares the declared length with
  the bytes left \<^emph>\<open>before\<close> the header is taken off, so a payload that is longer than
  what follows the header by one, two or three bytes passes the check; \<open>len\<close> then wraps
  around and the next iteration reads a header outside the buffer. In the four-byte
  buffer below the record declares three payload bytes and one is present: the scan
  reads the byte at offset 8.
\<close>

theorem parse_cmds_reads_past_end:
  "panel_simple_parse_cmds kmem_ok [0x05, 0x00, 0x03, 0xAA] (Some pcmds_zeroed) = ReadPastEnd 8"
  by code_simp

text \<open>
  C3. Serialising a list of commands and parsing the buffer gives back the commands, in
  order, when every payload has at most 255 bytes, the last command has a payload that
  is not empty, and the buffer's length fits the parser's \<^verbatim>\<open>int blen\<close> (and both
  allocations succeed).
\<close>

theorem parse_serialize_roundtrip:
  assumes "kmemdup_ok m" and "kcalloc_ok m"
    and "\<forall>c\<in>set cs. length (snd (snd c)) \<le> 255"
    and "cs \<noteq> [] \<longrightarrow> snd (snd (last cs)) \<noteq> []"
    and "length (serialize_cmds cs) < 2 ^ 31"
  shows "\<exists>pc. panel_simple_parse_cmds m (serialize_cmds cs) (Some pc0) = Parsed pc \<and>
           cmd_cnt pc = length cs \<and> map (command_of pc) (cmds pc) = cs"
proof -
  let ?b = "serialize_cmds cs"
  have ul: "unat (of_nat (length ?b) :: u32) = length ?b"
    using assms(5) by (rule unat_of_nat_len)
  have sc: "scan_cmds ?b 0 (of_nat (length ?b)) 0 = ScanEnd 0 (length cs)"
    using scan_cmds_serialize [OF assms(3,4) ul, of "[]" 0] by simp
  obtain ds where ds: "fill_cmds ?b 0 (length cs) = Inr ds"
    "map (\<lambda>d. (dtype (dchdr d), wait (dchdr d),
        take (unat (dlen (dchdr d))) (drop (payload d) ?b))) ds = cs"
    using fill_cmds_serialize [OF assms(3), of "[]" "[]"] by auto
  let ?pc = "pc0\<lparr>cmds := ds, cmd_cnt := length cs, buf := ?b, blen := int (length ?b)\<rparr>"
  have "panel_simple_parse_cmds m ?b (Some pc0) = Parsed ?pc"
    using assms(1,2) sc ds(1) by (simp add: panel_simple_parse_cmds_def)
  moreover have "command_of ?pc = (\<lambda>d. (dtype (dchdr d), wait (dchdr d),
        take (unat (dlen (dchdr d))) (drop (payload d) ?b)))"
    by (rule ext) (simp add: command_of_def payload_bytes_def)
  then have "map (command_of ?pc) (cmds ?pc) = cs"
    using ds(2) by simp
  ultimately show ?thesis by (intro exI [of _ ?pc]) simp
qed

theorem parse_serialize_roundtrip_witness:
  "\<exists>pc. panel_simple_parse_cmds kmem_ok
      (serialize_cmds [(0x05, 0, [0xAA]), (0x03, 0, []), (0x39, 7, [1, 2])])
      (Some pcmds_zeroed) = Parsed pc \<and>
    cmd_cnt pc = length [(0x05, 0, [0xAA]), (0x03, 0, []), (0x39, 7, [1, 2 :: u8]) :: command] \<and>
    map (command_of pc) (cmds pc) = [(0x05, 0, [0xAA]), (0x03, 0, []), (0x39, 7, [1, 2])]"
  using parse_serialize_roundtrip
    [of kmem_ok "[(0x05, 0, [0xAA]), (0x03, 0, []), (0x39, 7, [1, 2])]" pcmds_zeroed]
  by (simp add: kmem_ok_def serialize_cmds_def)

text \<open>
  The round trip as the claim states it, for every list of commands, fails on a list
  whose last command has no payload: the scan loop runs only while more than three
  bytes are left, so the three bytes of the last header are reported as a trailer.
\<close>

theorem roundtrip_empty_last_payload_fails:
  "panel_simple_parse_cmds kmem_ok (serialize_cmds [(0x03, 0, [])]) (Some pcmds_zeroed)
     = Failed EINVAL_trailer"
  by code_simp

text \<open>
  C4. When parsing succeeds, the records of the parsed commands, each three header
  bytes and its payload, add up to the length of the buffer, and every payload lies
  inside the buffer.
\<close>

theorem parse_cmds_total_length:
  assumes "length data < 2 ^ 31" and "panel_simple_parse_cmds m data pcmds = Parsed pc"
  shows "(\<Sum>c\<leftarrow>cmds pc. 3 + unat (dlen (dchdr c))) = length data \<and>
         (\<forall>c\<in>set (cmds pc). length (payload_bytes pc c) = unat (dlen (dchdr c)))"
proof -
  from assms(2) obtain pc0 cnt cs where
    sc: "scan_cmds data 0 (of_nat (length data)) 0 = ScanEnd 0 cnt" and
    fl: "fill_cmds data 0 cnt = Inr cs" and
    pc: "pc = pc0\<lparr>cmds := cs, cmd_cnt := cnt, buf := data, blen := int (length data)\<rparr>"
    by (auto simp: panel_simple_parse_cmds_def
        split: option.splits if_splits scan_result.splits sum.splits)
  have "unat (of_nat (length data) :: u32) + 0 = length data"
    using assms(1) by (simp add: unat_of_nat_len)
  from scan_cmds_sound [OF this sc] fl
  have "(\<Sum>c\<leftarrow>cs. 3 + unat (dlen (dchdr c))) = length data"
    and "\<forall>c\<in>set cs. payload c + unat (dlen (dchdr c)) \<le> length data"
    using assms(1) by (auto simp: unat_of_nat_len)
  then show ?thesis by (auto simp: pc payload_bytes_def)
qed

theorem parse_cmds_total_length_witness:
  "length [0x05, 0, 1, 0xAA, 0x39, 7, 2, 1, 2 :: u8] < 2 ^ 31 \<and>
   panel_simple_parse_cmds kmem_ok [0x05, 0, 1, 0xAA, 0x39, 7, 2, 1, 2] (Some pcmds_zeroed) =
     Parsed \<lparr>buf = [0x05, 0, 1, 0xAA, 0x39, 7, 2, 1, 2], blen = 9,
       cmds = [\<lparr>dchdr = \<lparr>dtype = 0x05, wait = 0, dlen = 1\<rparr>, payload = 3\<rparr>,
               \<lparr>dchdr = \<lparr>dtype = 0x39, wait = 7, dlen = 2\<rparr>, payload = 7\<rparr>],
       cmd_cnt = 2\<rparr> \<and>
   (\<Sum>c\<leftarrow>[\<lparr>dchdr = \<lparr>dtype = 0x05, wait = 0, dlen = 1\<rparr>, payload = 3\<rparr>,
         \<lparr>dchdr = \<lparr>dtype = 0x39, wait = 7, dlen = 2\<rparr>, payload = 7 :: nat\<rparr>].
       3 + unat (dlen (dchdr c))) = (9 :: nat)"
proof -
  have h1: "length [0x05, 0, 1, 0xAA, 0x39, 7, 2, 1, 2 :: u8] < 2 ^ 31" by simp
  have h2: "panel_simple_parse_cmds kmem_ok [0x05, 0, 1, 0xAA, 0x39, 7, 2, 1, 2]
      (Some pcmds_zeroed) =
     Parsed \<lparr>buf = [0x05, 0, 1, 0xAA, 0x39, 7, 2, 1, 2], blen = 9,
       cmds = [\<lparr>dchdr = \<lparr>dtype = 0x05, wait = 0, dlen = 1\<rparr>, payload = 3\<rparr>,
               \<lparr>dchdr = \<lparr>dtype = 0x39, wait = 7, dlen = 2\<rparr>, payload = 7\<rparr>],
       cmd_cnt = 2\<rparr>" by code_simp
  show ?thesis using h1 h2 parse_cmds_total_length [OF h1 h2] by simp
qed

text \<open>
  C9. An empty buffer parses to an empty command sequence. A buffer of one or two
  bytes is no record at all: the scan counts zero records and leaves every byte, and
  parsing fails with the trailer error.
\<close>

theorem parse_cmds_empty_and_short:
  assumes "kmemdup_ok m"
  shows "(kcalloc_ok m \<longrightarrow>
            panel_simple_parse_cmds m [] (Some pc) =
              Parsed (pc\<lparr>cmds := [], cmd_cnt := 0, buf := [], blen := 0\<rparr>)) \<and>
         (data \<noteq> [] \<and> length data < 3 \<longrightarrow>
            scan_cmds data 0 (of_nat (length data)) 0 = ScanEnd (of_nat (length data)) 0 \<and>
            panel_simple_parse_cmds m data (Some pc) = Failed EINVAL_trailer)"
proof (intro conjI impI)
  assume "kcalloc_ok m"
  then show "panel_simple_parse_cmds m [] (Some pc) =
      Parsed (pc\<lparr>cmds := [], cmd_cnt := 0, buf := [], blen := 0\<rparr>)"
    using assms by (simp add: panel_simple_parse_cmds_def scan_cmds_stop)
next
  assume short: "data \<noteq> [] \<and> length data < 3"
  then have u: "unat (of_nat (length data) :: u32) = length data"
    by (simp add: unat_of_nat take_bit_nat_eq_self)
  then have nz: "(of_nat (length data) :: u32) \<noteq> 0"
    using short by (auto simp: unat_eq_0 [symmetric])
  show sc: "scan_cmds data 0 (of_nat (length data)) 0 = ScanEnd (of_nat (length data)) 0"
    using short u by (simp add: scan_cmds_stop)
  show "panel_simple_parse_cmds m data (Some pc) = Failed EINVAL_trailer"
    using assms short nz by (simp add: panel_simple_parse_cmds_def sc)
qed

theorem parse_cmds_empty_and_short_witness:
  "panel_simple_parse_cmds kmem_ok [] (Some pcmds_zeroed) = Parsed pcmds_zeroed \<and>
   scan_cmds [0x05, 0x00] 0 2 0 = ScanEnd 2 0 \<and>
   panel_simple_parse_cmds kmem_ok [0x05, 0x00] (Some pcmds_zeroed) = Failed EINVAL_trailer"
  using parse_cmds_empty_and_short [of kmem_ok pcmds_zeroed "[0x05, 0x00]"]
  by (simp add: kmem_ok_def pcmds_zeroed_def)

section \<open>Properties of the transmitter\<close>

subsection \<open>Events of one command\<close>

lemma writes_of_append: "writes_of (xs @ ys) = writes_of xs @ writes_of ys"
  by (induction xs rule: writes_of.induct) simp_all

lemma sleeps_of_append: "sleeps_of (xs @ ys) = sleeps_of xs @ sleeps_of ys"
  by (induction xs rule: sleeps_of.induct) simp_all

lemma write_errors_append: "write_errors (xs @ ys) = write_errors xs @ write_errors ys"
  by (induction xs rule: write_errors.induct) simp_all

lemma logged_write_errors_append:
  "logged_write_errors (xs @ ys) = logged_write_errors xs @ logged_write_errors ys"
  by (induction xs rule: logged_write_errors.induct) simp_all

lemma line_events_append: "line_events (xs @ ys) = line_events xs @ line_events ys"
  by (induction xs rule: line_events.induct) simp_all

lemma sleep_event_projections:
  "writes_of [sleep_event n] = []" "sleeps_of [sleep_event n] = [sleep_event n]"
  "write_errors [sleep_event n] = []" "logged_write_errors [sleep_event n] = []"
  by (simp_all add: sleep_event_def)

lemma send_cmds_loop_recognised:
  "recognised t c \<Longrightarrow>
   send_cmds_loop t k pc (c # rest) h = send_cmds_loop t k pc rest (send_one t k pc c h)"
  by (auto simp: recognised_def generic_type_def dcs_type_def send_one_def)

lemma send_cmds_loop_unknown:
  "\<not> recognised t c \<Longrightarrow> send_cmds_loop t k pc (c # rest) h = (- EINVAL, h)"
  by (auto simp: recognised_def generic_type_def dcs_type_def)

lemma events_send_one:
  "events (send_one t k pc c h) =
     events h @
     Dsi_write (fst (write_of t pc c)) (payload_bytes pc c)
       (dsi_write_ret k (events h) (fst (write_of t pc c)) (payload_bytes pc c)) #
     (if dsi_write_ret k (events h) (fst (write_of t pc c)) (payload_bytes pc c) < 0
      then [Dev_err (Failed_to_write_dcs_cmd
              (dsi_write_ret k (events h) (fst (write_of t pc c)) (payload_bytes pc c)))]
      else []) @
     (if wait (dchdr c) \<noteq> 0 then [sleep_event (unat (wait (dchdr c)))] else [])"
  by (simp add: send_one_def after_write_def write_of_def mipi_dsi_generic_write_def
      mipi_dsi_dcs_write_buffer_def emit_def dev_err_def panel_simple_sleep_def Let_def)

lemma writes_of_send_one:
  "writes_of (events (send_one t k pc c h)) = writes_of (events h) @ [write_of t pc c]"
  by (simp add: events_send_one writes_of_append sleep_event_projections write_of_def)

lemma sleeps_of_send_one:
  "sleeps_of (events (send_one t k pc c h)) =
     sleeps_of (events h) @
     (if wait (dchdr c) \<noteq> 0 then [sleep_event (unat (wait (dchdr c)))] else [])"
  by (simp add: events_send_one sleeps_of_append sleep_event_projections)

lemma errors_of_send_one:
  "\<exists>rs. write_errors (events (send_one t k pc c h)) = write_errors (events h) @ rs \<and>
        logged_write_errors (events (send_one t k pc c h)) = logged_write_errors (events h) @ rs"
  by (simp add: events_send_one write_errors_append logged_write_errors_append
      sleep_event_projections)

lemma send_cmds_loop_all_recognised:
  "\<forall>c\<in>set cs. recognised t c \<Longrightarrow>
   fst (send_cmds_loop t k pc cs h) = 0 \<and>
   writes_of (events (snd (send_cmds_loop t k pc cs h))) =
     writes_of (events h) @ map (write_of t pc) cs \<and>
   sleeps_of (events (snd (send_cmds_loop t k pc cs h))) =
     sleeps_of (events h) @
     map (\<lambda>c. sleep_event (unat (wait (dchdr c)))) (filter (\<lambda>c. wait (dchdr c) \<noteq> 0) cs) \<and>
   (\<exists>rs. write_errors (events (snd (send_cmds_loop t k pc cs h))) =
           write_errors (events h) @ rs \<and>
         logged_write_errors (events (snd (send_cmds_loop t k pc cs h))) =
           logged_write_errors (events h) @ rs)"
proof (induction cs arbitrary: h)
  case Nil
  then show ?case by simp
next
  case (Cons c cs)
  let ?h = "send_one t k pc c h"
  have rc: "recognised t c" and rest: "\<forall>c\<in>set cs. recognised t c"
    using Cons.prems by simp_all
  have eq: "send_cmds_loop t k pc (c # cs) h = send_cmds_loop t k pc cs ?h"
    using rc by (rule send_cmds_loop_recognised)
  note IH = Cons.IH [OF rest, of ?h]
  obtain rs1 where rs1: "write_errors (events ?h) = write_errors (events h) @ rs1"
      "logged_write_errors (events ?h) = logged_write_errors (events h) @ rs1"
    using errors_of_send_one [of t k pc c h] by blast
  obtain rs2 where rs2:
      "write_errors (events (snd (send_cmds_loop t k pc cs ?h))) = write_errors (events ?h) @ rs2"
      "logged_write_errors (events (snd (send_cmds_loop t k pc cs ?h))) =
         logged_write_errors (events ?h) @ rs2"
    using IH by blast
  have errs: "\<exists>rs. write_errors (events (snd (send_cmds_loop t k pc cs ?h))) =
           write_errors (events h) @ rs \<and>
         logged_write_errors (events (snd (send_cmds_loop t k pc cs ?h))) =
           logged_write_errors (events h) @ rs"
    by (rule exI [of _ "rs1 @ rs2"]) (simp add: rs1 rs2)
  show ?case
    unfolding eq using IH errs
    by (simp add: writes_of_send_one sleeps_of_send_one del: send_cmds_loop.simps)
qed

lemma send_cmds_loop_abort:
  "\<forall>x\<in>set pre. recognised t x \<Longrightarrow> \<not> recognised t c \<Longrightarrow>
   fst (send_cmds_loop t k pc (pre @ c # post) h) = - EINVAL \<and>
   writes_of (events (snd (send_cmds_loop t k pc (pre @ c # post) h))) =
     writes_of (events h) @ map (write_of t pc) pre"
proof (induction pre arbitrary: h)
  case Nil
  then show ?case by (simp add: send_cmds_loop_unknown del: send_cmds_loop.simps)
next
  case (Cons x pre)
  have "send_cmds_loop t k pc ((x # pre) @ c # post) h =
      send_cmds_loop t k pc (pre @ c # post) (send_one t k pc x h)"
    using Cons.prems(1) by (simp add: send_cmds_loop_recognised del: send_cmds_loop.simps)
  then show ?case
    using Cons.IH [of "send_one t k pc x h"] Cons.prems
    by (simp add: writes_of_send_one del: send_cmds_loop.simps)
qed


section \<open>The claims about the transmitter\<close>

text \<open>
  C5. When the descriptors sent are recognised commands \<open>pre\<close>, then a command \<open>c\<close>
  whose type is in neither write class, then any commands \<open>post\<close>, the call returns
  \<^verbatim>\<open>-EINVAL\<close> and the writes it has made are those of \<open>pre\<close>, in order: nothing of \<open>c\<close>
  or of \<open>post\<close> is written. In particular, of a recognised command followed by a command
  of type \<open>0xFF\<close> the first is written and the second is not.
\<close>

theorem send_cmds_unknown_type_aborts:
  assumes "take (cmd_cnt pc) (cmds pc) = pre @ c # post"
    and "\<forall>x\<in>set pre. recognised t x"
    and "\<not> recognised t c"
  shows "fst (panel_simple_dsi_send_cmds t k (Some pc) h) = - EINVAL \<and>
         writes_of (events (snd (panel_simple_dsi_send_cmds t k (Some pc) h))) =
           writes_of (events h) @ map (write_of t pc) pre"
  using send_cmds_loop_abort [OF assms(2,3), of k pc post h]
  by (simp add: panel_simple_dsi_send_cmds_def assms(1))

theorem send_cmds_unknown_type_aborts_witness:
  "fst (panel_simple_dsi_send_cmds mipi_display_h kernel_ok (Some cmds_unknown) hw_off) = - 22 \<and>
   writes_of (events (snd (panel_simple_dsi_send_cmds mipi_display_h kernel_ok
     (Some cmds_unknown) hw_off))) = [(Dcs_write_buffer, [0x11])]"
  using send_cmds_unknown_type_aborts
    [of cmds_unknown "[\<lparr>dchdr = \<lparr>dtype = 0x05, wait = 0x78, dlen = 1\<rparr>, payload = 3\<rparr>]"
        "\<lparr>dchdr = \<lparr>dtype = 0xFF, wait = 0x00, dlen = 1\<rparr>, payload = 7\<rparr>" "[]"
        mipi_display_h kernel_ok hw_off]
  by (simp add: cmds_unknown_def recognised_def generic_type_def dcs_type_def
      mipi_display_h_def write_of_def payload_bytes_def hw_off_def EINVAL_def)

text \<open>
  C6. When every descriptor sent is a recognised command, the call returns 0 whatever
  the results of the channel writes are: every command is written, in order; the wait
  of every command that has one is slept, in order; and the failures of the writes are
  the failures logged, in order.
\<close>

theorem send_cmds_channel_failure_not_fatal:
  assumes "\<forall>c\<in>set (take (cmd_cnt pc) (cmds pc)). recognised t c"
  shows "fst (panel_simple_dsi_send_cmds t k (Some pc) h) = 0 \<and>
         writes_of (events (snd (panel_simple_dsi_send_cmds t k (Some pc) h))) =
           writes_of (events h) @ map (write_of t pc) (take (cmd_cnt pc) (cmds pc)) \<and>
         sleeps_of (events (snd (panel_simple_dsi_send_cmds t k (Some pc) h))) =
           sleeps_of (events h) @
           map (\<lambda>c. sleep_event (unat (wait (dchdr c))))
             (filter (\<lambda>c. wait (dchdr c) \<noteq> 0) (take (cmd_cnt pc) (cmds pc))) \<and>
         (\<exists>rs. write_errors (events (snd (panel_simple_dsi_send_cmds t k (Some pc) h))) =
                 write_errors (events h) @ rs \<and>
               logged_write_errors (events (snd (panel_simple_dsi_send_cmds t k (Some pc) h))) =
                 logged_write_errors (events h) @ rs)"
  using send_cmds_loop_all_recognised [OF assms, of k pc h]
  by (simp add: panel_simple_dsi_send_cmds_def)

theorem send_cmds_channel_failure_not_fatal_witness:
  "fst (panel_simple_dsi_send_cmds mipi_display_h kernel_failing (Some cmds_known) hw_off) = 0 \<and>
   writes_of (events (snd (panel_simple_dsi_send_cmds mipi_display_h kernel_failing
     (Some cmds_known) hw_off))) = [(Dcs_write_buffer, [0x11]), (Dcs_write_buffer, [0x29])] \<and>
   sleeps_of (events (snd (panel_simple_dsi_send_cmds mipi_display_h kernel_failing
     (Some cmds_known) hw_off))) = [Usleep_range 5000 6000] \<and>
   write_errors (events (snd (panel_simple_dsi_send_cmds mipi_display_h kernel_failing
     (Some cmds_known) hw_off))) = [- 5, - 5]"
proof -
  have r: "\<forall>c\<in>set (take (cmd_cnt cmds_known) (cmds cmds_known)). recognised mipi_display_h c"
    by (simp add: cmds_known_def recognised_def generic_type_def dcs_type_def mipi_display_h_def)
  have e: "write_errors (events (snd (panel_simple_dsi_send_cmds mipi_display_h kernel_failing
     (Some cmds_known) hw_off))) = [- 5, - 5]"
    by code_simp
  show ?thesis
    using send_cmds_channel_failure_not_fatal [OF r, of kernel_failing hw_off] e
    by (simp add: cmds_known_def write_of_def generic_type_def mipi_display_h_def
        payload_bytes_def hw_off_def sleep_event_def)
qed

section \<open>The claim about the power rail\<close>

text \<open>
  C7. With \<open>power_invert\<close> set, \<^verbatim>\<open>panel_simple_regulator_enable\<close> on a rail that is on
  leaves it off, and \<^verbatim>\<open>panel_simple_regulator_disable\<close> on a rail that is off leaves it
  on; with \<open>power_invert\<close> clear, enable leaves the rail on and disable leaves it off.
  Where the driver asks the rail to switch on, this is so when the rail's own enable
  does not fail.
\<close>

theorem regulator_polarity:
  "(power_invert p \<and> rail_on h \<longrightarrow>
      \<not> rail_on (snd (panel_simple_regulator_enable k p h))) \<and>
   (power_invert p \<and> \<not> rail_on h \<and> 0 \<le> regulator_enable_ret k (events h) \<longrightarrow>
      rail_on (snd (panel_simple_regulator_disable k p h))) \<and>
   (\<not> power_invert p \<and> 0 \<le> regulator_enable_ret k (events h) \<longrightarrow>
      rail_on (snd (panel_simple_regulator_enable k p h))) \<and>
   (\<not> power_invert p \<longrightarrow>
      \<not> rail_on (snd (panel_simple_regulator_disable k p h)))"
  by (simp add: panel_simple_regulator_enable_def panel_simple_regulator_disable_def
      regulator_is_enabled_def regulator_enable_def regulator_disable_def emit_def Let_def)

theorem regulator_polarity_witness:
  "\<not> rail_on (snd (panel_simple_regulator_enable kernel_ok
       (panel_probed\<lparr>power_invert := True\<rparr>) hw_on)) \<and>
   rail_on (snd (panel_simple_regulator_disable kernel_ok
       (panel_probed\<lparr>power_invert := True\<rparr>) hw_off)) \<and>
   rail_on (snd (panel_simple_regulator_enable kernel_ok panel_probed hw_off)) \<and>
   \<not> rail_on (snd (panel_simple_regulator_disable kernel_ok panel_probed hw_on))"
  using regulator_polarity [of "panel_probed\<lparr>power_invert := True\<rparr>" hw_on kernel_ok]
    regulator_polarity [of "panel_probed\<lparr>power_invert := True\<rparr>" hw_off kernel_ok]
    regulator_polarity [of panel_probed hw_off kernel_ok]
    regulator_polarity [of panel_probed hw_on kernel_ok]
  by (simp add: panel_probed_def hw_on_def hw_off_def kernel_ok_def)

section \<open>The claims about the lifecycle\<close>

text \<open>
  C8. When the rail step of \<^verbatim>\<open>panel_simple_prepare\<close> fails on a panel that is not
  prepared, the call returns the rail's error, the panel is as it was (not prepared),
  the rail is as it was, and the call has driven no line and slept no delay.
\<close>

theorem prepare_rail_failure:
  assumes "\<not> prepared p" and "fst (panel_simple_regulator_enable k p h) < 0"
  shows "fst (panel_simple_prepare k p h) = fst (panel_simple_regulator_enable k p h) \<and>
         fst (snd (panel_simple_prepare k p h)) = p \<and>
         rail_on (snd (snd (panel_simple_prepare k p h))) = rail_on h \<and>
         line_events (events (snd (snd (panel_simple_prepare k p h)))) = line_events (events h) \<and>
         sleeps_of (events (snd (snd (panel_simple_prepare k p h)))) = sleeps_of (events h)"
  using assms
  by (auto simp: panel_simple_prepare_def panel_simple_regulator_enable_def
      regulator_is_enabled_def regulator_enable_def regulator_disable_def emit_def dev_err_def
      Let_def line_events_append sleeps_of_append split: if_splits prod.splits)

theorem prepare_rail_failure_witness:
  "fst (panel_simple_regulator_enable kernel_failing panel_probed hw_off) < 0 \<and>
   panel_simple_prepare kernel_failing panel_probed hw_off =
     (- 5, panel_probed,
      \<lparr>rail_on = False,
       events = [Regulator_enable (- 5), Dev_err (Failed_to_enable_supply (- 5)),
                 Dev_err (Failed_to_enable_supply (- 5))]\<rparr>) \<and>
   line_events (events (snd (snd (panel_simple_prepare kernel_failing panel_probed hw_off)))) = []"
proof -
  have a: "\<not> prepared panel_probed" by (simp add: panel_probed_def)
  have b: "fst (panel_simple_regulator_enable kernel_failing panel_probed hw_off) < 0"
    by (simp add: panel_simple_regulator_enable_def panel_probed_def regulator_enable_def
        kernel_failing_def)
  have c: "panel_simple_prepare kernel_failing panel_probed hw_off =
     (- 5, panel_probed,
      \<lparr>rail_on = False,
       events = [Regulator_enable (- 5), Dev_err (Failed_to_enable_supply (- 5)),
                 Dev_err (Failed_to_enable_supply (- 5))]\<rparr>)"
    by (simp add: panel_simple_prepare_def panel_simple_regulator_enable_def panel_probed_def
        regulator_enable_def kernel_failing_def hw_off_def emit_def dev_err_def)
  show ?thesis using prepare_rail_failure [OF a b] b c by (simp add: hw_off_def)
qed

text \<open>
  C10. When sending the on-sequence in \<^verbatim>\<open>panel_simple_enable\<close> returns an error, the
  call logs it, sets \<open>enabled\<close> and returns that error.
\<close>

theorem enable_returns_send_error:
  assumes "\<not> enabled p" and "on_cmds p = Some c" and "dsi p"
    and "fst (panel_simple_dsi_send_cmds t k (Some c) (sleep_if_delay enable p h)) = err"
    and "err \<noteq> 0"
  shows "fst (panel_simple_enable t k p h) = err \<and>
         fst (snd (panel_simple_enable t k p h)) = p\<lparr>enabled := True\<rparr> \<and>
         events (snd (snd (panel_simple_enable t k p h))) =
           events (snd (panel_simple_dsi_send_cmds t k (Some c) (sleep_if_delay enable p h))) @
           [Dev_err Failed_to_send_on_cmds]"
  using assms
  by (auto simp: panel_simple_enable_def send_on_cmds_def dev_err_def emit_def
      split: prod.splits)

theorem enable_returns_send_error_witness:
  "panel_simple_enable mipi_display_h kernel_ok (panel_probed\<lparr>on_cmds := Some cmds_unknown\<rparr>) hw_off =
     (- 22, panel_probed\<lparr>on_cmds := Some cmds_unknown, enabled := True\<rparr>,
      \<lparr>rail_on = False,
       events = [Dsi_write Dcs_write_buffer [0x11] 0, Msleep 120, Dev_err Failed_to_send_on_cmds]\<rparr>)"
proof -
  let ?p = "panel_probed\<lparr>on_cmds := Some cmds_unknown\<rparr>"
  have a: "\<not> enabled ?p" "on_cmds ?p = Some cmds_unknown" "dsi ?p"
    by (simp_all add: panel_probed_def)
  have s: "panel_simple_dsi_send_cmds mipi_display_h kernel_ok (Some cmds_unknown)
      (sleep_if_delay enable ?p hw_off) =
      (- 22, \<lparr>rail_on = False, events = [Dsi_write Dcs_write_buffer [0x11] 0, Msleep 120]\<rparr>)"
    by code_simp
  then have b: "fst (panel_simple_dsi_send_cmds mipi_display_h kernel_ok (Some cmds_unknown)
      (sleep_if_delay enable ?p hw_off)) = - 22" by simp
  have r: "rail_on (snd (snd (panel_simple_enable mipi_display_h kernel_ok ?p hw_off))) = False"
    by code_simp
  show ?thesis
    using enable_returns_send_error [OF a b] s r
    by (simp add: prod_eq_iff hw.equality)
qed


subsection \<open>The two flags\<close>

lemma enabled_prepare: "enabled (fst (snd (panel_simple_prepare k p h))) = enabled p"
  by (auto simp: panel_simple_prepare_def Let_def split: prod.splits)

lemma prepared_prepare: "prepared p \<Longrightarrow> prepared (fst (snd (panel_simple_prepare k p h)))"
  by (auto simp: panel_simple_prepare_def Let_def split: prod.splits)

lemma prepared_enable: "prepared (fst (snd (panel_simple_enable t k p h))) = prepared p"
  by (auto simp: panel_simple_enable_def split: prod.splits)

lemma enabled_disable: "\<not> enabled (fst (snd (panel_simple_disable p h)))"
  by (auto simp: panel_simple_disable_def)

lemma enabled_unprepare: "enabled (fst (snd (panel_simple_unprepare t k p h))) = enabled p"
  by (auto simp: panel_simple_unprepare_def Let_def)

lemma panel_unprepare:
  "prepared p \<Longrightarrow> fst (snd (panel_simple_unprepare t k p h)) = p\<lparr>prepared := False\<rparr>"
  by (auto simp: panel_simple_unprepare_def Let_def)

lemma call_keeps_invariant:
  assumes "allowed c (fst s)" and "enabled (fst s) \<longrightarrow> prepared (fst s)"
  shows "enabled (fst (call t k c s)) \<longrightarrow> prepared (fst (call t k c s))"
proof (cases s)
  case (Pair p h)
  show ?thesis
  proof (cases c)
    case Prepare
    then show ?thesis
      using assms Pair enabled_prepare [of k p h] prepared_prepare [of p k h] by auto
  next
    case Enable
    then show ?thesis using assms Pair prepared_enable [of t k p h] by auto
  next
    case Disable
    then show ?thesis using Pair enabled_disable [of p h] by auto
  next
    case Unprepare
    then show ?thesis using assms Pair enabled_unprepare [of t k p h] by auto
  qed
qed

lemma run_keeps_invariant:
  "in_order t k cs s \<Longrightarrow> enabled (fst s) \<longrightarrow> prepared (fst s) \<Longrightarrow>
   enabled (fst (run t k cs s)) \<longrightarrow> prepared (fst (run t k cs s))"
proof (induction cs arbitrary: s)
  case Nil
  then show ?case by simp
next
  case (Cons c cs)
  have "enabled (fst (call t k c s)) \<longrightarrow> prepared (fst (call t k c s))"
    using Cons.prems by (intro call_keeps_invariant) simp_all
  then show ?case using Cons.IH [of "call t k c s"] Cons.prems(1) by simp
qed

lemma in_order_take: "in_order t k cs s \<Longrightarrow> in_order t k (take n cs) s"
proof (induction cs arbitrary: n s)
  case Nil
  then show ?case by simp
next
  case (Cons c cs)
  then show ?case by (cases n) simp_all
qed

text \<open>
  C2. From a panel that is neither prepared nor enabled, a state that is enabled and not
  prepared is reached after no call of a run that is in order, that is, in which
  \<open>enable\<close> is called on a prepared panel and \<open>unprepare\<close> on a panel that is not
  enabled. \<^verbatim>\<open>panel_simple_unprepare\<close> on a prepared panel clears \<open>prepared\<close> and leaves
  every other field, \<open>enabled\<close> too, as it was.
\<close>

theorem enabled_implies_prepared_in_order:
  assumes "\<not> prepared p" and "\<not> enabled p" and "in_order t k cs (p, h)"
  shows "(\<forall>n\<le>length cs. enabled (fst (run t k (take n cs) (p, h))) \<longrightarrow>
            prepared (fst (run t k (take n cs) (p, h)))) \<and>
         (\<forall>(q::panel_simple) g. prepared q \<longrightarrow>
            fst (snd (panel_simple_unprepare t k q g)) = q\<lparr>prepared := False\<rparr>)"
proof (intro conjI allI impI)
  fix n
  assume "n \<le> length cs" and e: "enabled (fst (run t k (take n cs) (p, h)))"
  have "in_order t k (take n cs) (p, h)" using assms(3) by (rule in_order_take)
  then have "enabled (fst (run t k (take n cs) (p, h))) \<longrightarrow>
      prepared (fst (run t k (take n cs) (p, h)))"
    using assms(2) by (intro run_keeps_invariant) simp_all
  with e show "prepared (fst (run t k (take n cs) (p, h)))" by simp
next
  fix q :: panel_simple and g
  assume "prepared q"
  then show "fst (snd (panel_simple_unprepare t k q g)) = q\<lparr>prepared := False\<rparr>"
    by (rule panel_unprepare)
qed

theorem enabled_implies_prepared_in_order_witness:
  "in_order mipi_display_h kernel_ok [Prepare, Enable, Disable, Unprepare] (panel_probed, hw_off) \<and>
   enabled (fst (run mipi_display_h kernel_ok (take 2 [Prepare, Enable, Disable, Unprepare])
     (panel_probed, hw_off))) \<and>
   prepared (fst (run mipi_display_h kernel_ok (take 2 [Prepare, Enable, Disable, Unprepare])
     (panel_probed, hw_off))) \<and>
   fst (run mipi_display_h kernel_ok [Prepare, Enable, Disable, Unprepare] (panel_probed, hw_off)) =
     panel_probed"
proof -
  have a: "\<not> prepared panel_probed" "\<not> enabled panel_probed" by (simp_all add: panel_probed_def)
  have b: "in_order mipi_display_h kernel_ok [Prepare, Enable, Disable, Unprepare]
      (panel_probed, hw_off)" by code_simp
  have c: "enabled (fst (run mipi_display_h kernel_ok (take 2 [Prepare, Enable, Disable, Unprepare])
     (panel_probed, hw_off)))" by code_simp
  have d: "fst (run mipi_display_h kernel_ok [Prepare, Enable, Disable, Unprepare]
      (panel_probed, hw_off)) = panel_probed" by code_simp
  have "2 \<le> length [Prepare, Enable, Disable, Unprepare]" by simp
  with enabled_implies_prepared_in_order [OF a b] c
  have "prepared (fst (run mipi_display_h kernel_ok (take 2 [Prepare, Enable, Disable, Unprepare])
     (panel_probed, hw_off)))" by blast
  with b c d show ?thesis by blast
qed

text \<open>
  Without the order the two flags are independent: \<open>enable\<close> on the probed panel sets
  \<open>enabled\<close> and not \<open>prepared\<close>, and \<open>unprepare\<close> on an enabled panel clears
  \<open>prepared\<close> and leaves \<open>enabled\<close> set.
\<close>

theorem enabled_without_prepared_reachable:
  "enabled (fst (run mipi_display_h kernel_ok [Enable] (panel_probed, hw_off))) \<and>
   \<not> prepared (fst (run mipi_display_h kernel_ok [Enable] (panel_probed, hw_off))) \<and>
   enabled (fst (run mipi_display_h kernel_ok [Prepare, Enable] (panel_probed, hw_off))) \<and>
   prepared (fst (run mipi_display_h kernel_ok [Prepare, Enable] (panel_probed, hw_off))) \<and>
   enabled (fst (run mipi_display_h kernel_ok [Prepare, Enable, Unprepare] (panel_probed, hw_off))) \<and>
   \<not> prepared (fst (run mipi_display_h kernel_ok [Prepare, Enable, Unprepare] (panel_probed, hw_off)))"
  by code_simp


end
